theory Spec2Isabelle
  imports Complex_Main "HOL-Library.Sublist" "HOL-Library.Multiset" "HOL-Library.Word"
begin

section \<open>Data model (types.ts)\<close>

text \<open>
  \<^verbatim>\<open>FileCategory = 'all' | 'images' | 'videos' | 'documents' | 'others'\<close>.
  The first constructor is written \<open>cat_all\<close>.
\<close>

datatype FileCategory = cat_all | images | videos | documents | others

text \<open>
  The interface \<^verbatim>\<open>BeeFile\<close>, field by field in the order of the source. The fields
  carry the prefix \<open>bee_\<close>: \<open>id\<close> and \<open>size\<close> are constants of HOL, and the browser's
  \<^verbatim>\<open>File\<close> object below has a name, a type, a size and a lastModified of its own.
  A byte count is a natural number and a time stamp in milliseconds an integer: both are
  JavaScript numbers below \<open>2 ^ 53\<close>, on which the arithmetic of doubles is exact.
\<close>

record BeeFile =
  bee_id :: string
  bee_name :: string
  bee_type :: string
  bee_size :: nat
  bee_lastModified :: int
  bee_ownerId :: string
  bee_blobId :: string
  bee_category :: FileCategory

record User =
  user_id :: string
  user_email :: string
  user_name :: string

datatype StorageStatus = IDLE | UPLOADING | SUCCESS | ERROR

text \<open>The browser's \<^verbatim>\<open>File\<close>: what an entry of a \<^verbatim>\<open>FileList\<close> offers to the code.\<close>

record File =
  file_name :: string
  file_type :: string
  file_size :: nat
  file_lastModified :: int
  file_content :: "8 word list"

section \<open>Strings\<close>

text \<open>
  \<^verbatim>\<open>String.prototype.startsWith\<close> and \<^verbatim>\<open>String.prototype.includes\<close>, by
  recursion on the characters: \<open>startsWith s p\<close> is \<^verbatim>\<open>s.startsWith(p)\<close>. The second
  is named \<open>includes_str\<close>, the plain name being a keyword of Isabelle.
\<close>

fun startsWith :: "string \<Rightarrow> string \<Rightarrow> bool" where
  "startsWith s [] = True"
| "startsWith [] (c # p) = False"
| "startsWith (d # s) (c # p) = (d = c \<and> startsWith s p)"

fun includes_str :: "string \<Rightarrow> string \<Rightarrow> bool" where
  "includes_str [] p = startsWith [] p"
| "includes_str (d # s) p = (startsWith (d # s) p \<or> includes_str s p)"

section \<open>services/storageService.ts: detectCategory\<close>

definition detectCategory :: "string \<Rightarrow> FileCategory" where
  "detectCategory mimeType =
     (if startsWith mimeType ''image/'' then images
      else if startsWith mimeType ''video/'' then videos
      else if includes_str mimeType ''pdf'' \<or> includes_str mimeType ''text''
            \<or> includes_str mimeType ''word'' \<or> includes_str mimeType ''presentation''
            \<or> includes_str mimeType ''sheet'' then documents
      else others)"


section \<open>The browser around the code\<close>

text \<open>
  What the code cannot decide is an input of the model. \<open>random_id e n\<close> is the value of
  \<^verbatim>\<open>Math.random().toString(36).substring(7)\<close> at the \<open>n\<close>-th call, and
  \<open>idb_fails e n\<close> tells whether the \<open>n\<close>-th call of \<open>saveFileBlob\<close>, \<open>getFileBlob\<close> or
  \<open>deleteFileBlob\<close> is rejected (opening the database or the request it makes ends in
  \<^verbatim>\<open>onerror\<close>). The state counts how many of each were made.
\<close>

record env =
  random_id :: "nat \<Rightarrow> string"
  idb_fails :: "nat \<Rightarrow> bool"

text \<open>
  The rejections. The source rejects with the request's \<^verbatim>\<open>DOMException\<close>; the names are
  those of the specification. No function of the source raises \<open>NotFound\<close>.
\<close>

datatype error = WriteFailed | ReadFailed | DeleteFailed | NotFound

text \<open>
  The state the handlers of \<^verbatim>\<open>App.tsx\<close> read and write: the React state (\<open>user\<close>,
  \<open>files\<close>, \<open>uploadStatus\<close>), the item \<^verbatim>\<open>bee_file_metadata\<close> of localStorage
  (\<open>None\<close> while it was never set; the JSON text is taken as the list it encodes), the
  object store \<^verbatim>\<open>files\<close> of IndexedDB, and the two counters of the environment.
  Writing to localStorage is taken to succeed.
\<close>

record state =
  user :: "User option"
  files :: "BeeFile list"
  uploadStatus :: StorageStatus
  meta_item :: "BeeFile list option"
  idb_store :: "string \<rightharpoonup> File"
  rnd_pos :: nat
  idb_pos :: nat

section \<open>services/storageService.ts: the two stores\<close>

definition saveFileBlob :: "env \<Rightarrow> string \<Rightarrow> File \<Rightarrow> state \<Rightarrow> (error + unit) \<times> state" where
  "saveFileBlob e key blob s =
     (let s' = s\<lparr>idb_pos := Suc (idb_pos s)\<rparr> in
      if idb_fails e (idb_pos s) then (Inl WriteFailed, s')
      else (Inr (), s'\<lparr>idb_store := (idb_store s)(key \<mapsto> blob)\<rparr>))"

text \<open>\<^verbatim>\<open>store.get\<close> of a key that is absent succeeds with \<^verbatim>\<open>undefined\<close>: \<open>None\<close>.\<close>

definition getFileBlob :: "env \<Rightarrow> string \<Rightarrow> state \<Rightarrow> (error + File option) \<times> state" where
  "getFileBlob e key s =
     (let s' = s\<lparr>idb_pos := Suc (idb_pos s)\<rparr> in
      if idb_fails e (idb_pos s) then (Inl ReadFailed, s')
      else (Inr (idb_store s key), s'))"

definition deleteFileBlob :: "env \<Rightarrow> string \<Rightarrow> state \<Rightarrow> (error + unit) \<times> state" where
  "deleteFileBlob e key s =
     (let s' = s\<lparr>idb_pos := Suc (idb_pos s)\<rparr> in
      if idb_fails e (idb_pos s) then (Inl DeleteFailed, s')
      else (Inr (), s'\<lparr>idb_store := (idb_store s)(key := None)\<rparr>))"

definition getMetadata :: "state \<Rightarrow> BeeFile list" where
  "getMetadata s = (case meta_item s of None \<Rightarrow> [] | Some data \<Rightarrow> data)"

definition saveMetadata :: "BeeFile list \<Rightarrow> state \<Rightarrow> state" where
  "saveMetadata fs s = s\<lparr>meta_item := Some fs\<rparr>"

section \<open>App.tsx: signing in, uploading, deleting\<close>

text \<open>
  \<^verbatim>\<open>getMetadata().filter(f => f.ownerId === u.id)\<close>, what the specification calls
  \<open>list(ownerId)\<close>; \<open>performLogin\<close> puts it on the screen.
\<close>

definition list_owned :: "string \<Rightarrow> state \<Rightarrow> BeeFile list" where
  "list_owned ownerId s = filter (\<lambda>f. bee_ownerId f = ownerId) (getMetadata s)"

definition performLogin :: "User \<Rightarrow> state \<Rightarrow> state" where
  "performLogin u s = s\<lparr>user := Some u, files := list_owned (user_id u) s\<rparr>"

text \<open>The record \<open>handleUpload\<close> builds for an accepted file and the identifier drawn for it.\<close>

definition make_beeFile :: "User \<Rightarrow> string \<Rightarrow> File \<Rightarrow> BeeFile" where
  "make_beeFile u ident file =
     \<lparr>bee_id = ident,
      bee_name = file_name file,
      bee_type = (if file_type file = [] then ''application/octet-stream'' else file_type file),
      bee_size = file_size file,
      bee_lastModified = file_lastModified file,
      bee_ownerId = user_id u,
      bee_blobId = ''blob_'' @ ident,
      bee_category = detectCategory (file_type file)\<rparr>"

text \<open>
  The \<^verbatim>\<open>for\<close> loop of \<open>handleUpload\<close> over the file list, with \<open>newFiles\<close> as the
  accumulator. A rejected write leaves the loop with the error, as the exception does.
\<close>

fun upload_loop ::
  "env \<Rightarrow> User \<Rightarrow> File list \<Rightarrow> BeeFile list \<Rightarrow> state \<Rightarrow> (error + BeeFile list) \<times> state" where
  "upload_loop e u [] newFiles s = (Inr newFiles, s)"
| "upload_loop e u (file # fileList) newFiles s =
     (if file_size file > 300 * 1024 * 1024 then upload_loop e u fileList newFiles s
      else
        let ident = random_id e (rnd_pos s);
            s1 = s\<lparr>rnd_pos := Suc (rnd_pos s)\<rparr>;
            beeFile = make_beeFile u ident file
        in case saveFileBlob e (bee_blobId beeFile) file s1 of
             (Inl err, s2) \<Rightarrow> (Inl err, s2)
           | (Inr _, s2) \<Rightarrow> upload_loop e u fileList (newFiles @ [beeFile]) s2)"

text \<open>
  \<open>handleUpload\<close>: nothing without a user; otherwise the loop, then the metadata and the
  view, or the \<^verbatim>\<open>catch\<close>. The timer that sets the status back to \<open>IDLE\<close> three seconds
  after a success is not part of the model.
\<close>

definition handleUpload :: "env \<Rightarrow> File list \<Rightarrow> state \<Rightarrow> state" where
  "handleUpload e fileList s =
     (case user s of
        None \<Rightarrow> s
      | Some u \<Rightarrow>
          (case upload_loop e u fileList [] (s\<lparr>uploadStatus := UPLOADING\<rparr>) of
             (Inl err, s1) \<Rightarrow> s1\<lparr>uploadStatus := ERROR\<rparr>
           | (Inr newFiles, s1) \<Rightarrow>
               (let s2 = saveMetadata (getMetadata s1 @ newFiles) s1;
                    s3 = s2\<lparr>files := files s2 @ newFiles\<rparr>
                in s3\<lparr>uploadStatus := SUCCESS\<rparr>)))"

text \<open>
  \<open>handleDelete\<close>; \<open>confirmed\<close> is the answer of \<^verbatim>\<open>window.confirm\<close>. The handler returns
  \<^verbatim>\<open>Promise<void>\<close>: it is fulfilled (\<open>Inr ()\<close>), or rejected with what
  \<open>deleteFileBlob\<close> rejected with.
\<close>

definition handleDelete :: "env \<Rightarrow> bool \<Rightarrow> string \<Rightarrow> state \<Rightarrow> (error + unit) \<times> state" where
  "handleDelete e confirmed ident s =
     (if \<not> confirmed then (Inr (), s)
      else case find (\<lambda>f. bee_id f = ident) (files s) of
        None \<Rightarrow> (Inr (), s)
      | Some fileToDelete \<Rightarrow>
          (case deleteFileBlob e (bee_blobId fileToDelete) s of
             (Inl err, s1) \<Rightarrow> (Inl err, s1)
           | (Inr _, s1) \<Rightarrow>
               (let updatedFiles = filter (\<lambda>f. bee_id f \<noteq> ident) (files s1);
                    s2 = s1\<lparr>files := updatedFiles\<rparr>;
                    allMetadata = getMetadata s2
                in (Inr (), saveMetadata (filter (\<lambda>f. bee_id f \<noteq> ident) allMetadata) s2))))"

text \<open>Sequences of uploads and deletions, from a signed-in user and empty stores.\<close>

datatype action = Upload "File list" | Delete string bool

fun step :: "env \<Rightarrow> state \<Rightarrow> action \<Rightarrow> state" where
  "step e s (Upload fileList) = handleUpload e fileList s"
| "step e s (Delete ident confirmed) = snd (handleDelete e confirmed ident s)"

definition run :: "env \<Rightarrow> action list \<Rightarrow> state \<Rightarrow> state" where
  "run e acts s = foldl (step e) s acts"

definition initial_state :: "User \<Rightarrow> state" where
  "initial_state u =
     \<lparr>user = Some u, files = [], uploadStatus = IDLE, meta_item = None,
      idb_store = Map.empty, rnd_pos = 0, idb_pos = 0\<rparr>"

section \<open>App.tsx: the filtered and sorted view\<close>









section \<open>services/storageService.ts: formatFileSize, and the usage of App.tsx\<close>

text \<open>
  Numbers as text. \<open>digit\<close> and \<open>string_of_nat\<close> write a natural number in decimal.
  \<open>round_div a b\<close> is the integer nearest to \<open>a / b\<close>, the larger of two that are equally
  near: what \<^verbatim>\<open>toFixed\<close> rounds to. \<open>number_text h\<close> is the text JavaScript gives the
  number \<open>h / 100\<close>, which is what \<^verbatim>\<open>parseFloat(x.toFixed(2)) + ' '\<close> starts with when \<open>h\<close>
  is \<open>x\<close> in hundredths: the integer part, and the decimals without their final zeros.
\<close>

definition digit :: "nat \<Rightarrow> char" where
  "digit d = ''0123456789'' ! d"

fun string_of_nat :: "nat \<Rightarrow> string" where
  "string_of_nat n =
     (if n < 10 then [digit n] else string_of_nat (n div 10) @ [digit (n mod 10)])"

declare string_of_nat.simps [simp del]

definition round_div :: "nat \<Rightarrow> nat \<Rightarrow> nat" where
  "round_div a b = (2 * a + b) div (2 * b)"

definition number_text :: "nat \<Rightarrow> string" where
  "number_text h =
     string_of_nat (h div 100) @
     (if h mod 100 = 0 then []
      else CHR ''.'' # digit (h mod 100 div 10) # (if h mod 10 = 0 then [] else [digit (h mod 10)]))"

text \<open>
  \<^verbatim>\<open>Math.floor(Math.log(bytes) / Math.log(k))\<close> for \<open>k = 1024\<close> and a positive number of
  bytes, taken exactly: the number of times \<open>bytes\<close> can be divided by 1024 before it is
  below 1024. The division \<^verbatim>\<open>bytes / Math.pow(k, i)\<close> by a power of two is exact on
  doubles.
\<close>

fun unit_index :: "nat \<Rightarrow> nat" where
  "unit_index bytes = (if bytes < 1024 then 0 else Suc (unit_index (bytes div 1024)))"

declare unit_index.simps [simp del]

text \<open>Reading \<^verbatim>\<open>sizes[i]\<close> past the end of the array gives \<^verbatim>\<open>undefined\<close>, which \<open>+\<close> prints.\<close>

definition formatFileSize :: "nat \<Rightarrow> string" where
  "formatFileSize bytes =
     (if bytes = 0 then ''0 Bytes''
      else
        let k = 1024;
            sizes = [''Bytes'', ''KB'', ''MB'', ''GB''];
            i = unit_index bytes
        in number_text (round_div (100 * bytes) (k ^ i)) @ '' '' @
           (if i < length sizes then sizes ! i else ''undefined''))"

text \<open>
  \<open>storageUsage\<close>: the pair of \<^verbatim>\<open>total\<close> and \<^verbatim>\<open>percent\<close>. The percentage is below 100 or
  is 100, and \<^verbatim>\<open>toFixed(1)\<close> rounds it to tenths; rounding and the minimum commute.
\<close>

definition storageUsage :: "BeeFile list \<Rightarrow> string \<times> string" where
  "storageUsage fs =
     (let total = foldl (\<lambda>acc f. acc + bee_size f) 0 fs;
          quota = 1024 * 1024 * 1024 * 2;
          tenths = min (round_div (total * 100 * 10) quota) (100 * 10)
      in (formatFileSize total, string_of_nat (tenths div 10) @ ''.'' @ [digit (tenths mod 10)]))"

section \<open>Notions the statements use\<close>

text \<open>
  The files of a batch that pass the size test of \<open>handleUpload\<close>, the records the loop
  builds for a list of accepted files when the next identifier is the \<open>p\<close>-th, and the
  object store after the blobs of some records were put.
\<close>

definition accepted :: "File list \<Rightarrow> File list" where
  "accepted fileList = filter (\<lambda>f. \<not> file_size f > 300 * 1024 * 1024) fileList"

fun records_from :: "env \<Rightarrow> User \<Rightarrow> nat \<Rightarrow> File list \<Rightarrow> BeeFile list" where
  "records_from e u p [] = []"
| "records_from e u p (f # fs) = make_beeFile u (random_id e p) f # records_from e u (Suc p) fs"

fun put_all :: "(BeeFile \<times> File) list \<Rightarrow> (string \<rightharpoonup> File) \<Rightarrow> (string \<rightharpoonup> File)" where
  "put_all [] m = m"
| "put_all ((r, f) # rfs) m = put_all rfs (m(bee_blobId r \<mapsto> f))"

text \<open>
  Concrete inputs: a user, a text file of a given name, size and content, an environment
  that draws the given identifiers in turn and fails the requests of the given numbers,
  and the state after that user uploaded one file of two bytes under the identifier \<open>a\<close>.
\<close>

definition demo_user :: User where
  "demo_user = \<lparr>user_id = ''u1'', user_email = ''bee@hive'', user_name = ''Bee''\<rparr>"

definition demo_file :: "string \<Rightarrow> nat \<Rightarrow> 8 word list \<Rightarrow> File" where
  "demo_file n sz c =
     \<lparr>file_name = n, file_type = ''text/plain'', file_size = sz, file_lastModified = 0,
      file_content = c\<rparr>"

definition demo_env :: "string list \<Rightarrow> nat list \<Rightarrow> env" where
  "demo_env ids bad =
     \<lparr>random_id = (\<lambda>n. if n < length ids then ids ! n else []),
      idb_fails = (\<lambda>n. n \<in> set bad)\<rparr>"

definition stored_once :: state where
  "stored_once =
     handleUpload (demo_env [''a''] []) [demo_file ''n'' 2 [1, 2]] (initial_state demo_user)"

text \<open>
  The invariant behind C9: the identifiers of the metadata are pairwise distinct and each
  was drawn from the generator at an earlier position.
\<close>

definition ids_ok :: "env \<Rightarrow> state \<Rightarrow> bool" where
  "ids_ok e s \<longleftrightarrow> distinct (map bee_id (getMetadata s))
                 \<and> bee_id ` set (getMetadata s) \<subseteq> random_id e ` {..<rnd_pos s}"

text \<open>A batch of two files of one byte each, of different content.\<close>

definition two_files :: "File list" where
  "two_files = [demo_file ''p'' 1 [1], demo_file ''q'' 1 [2]]"


definition consistent :: "(string \<Rightarrow> string \<Rightarrow> int) \<Rightarrow> bool" where
  "consistent lc \<longleftrightarrow>
     (\<forall>a b. (lc a b < 0) = (0 < lc b a)) \<and> (\<forall>a b c. lc a b \<le> 0 \<and> lc b c \<le> 0 \<longrightarrow> lc a c \<le> 0)"



definition demo_record :: "string \<Rightarrow> nat \<Rightarrow> BeeFile" where
  "demo_record n sz =
     \<lparr>bee_id = n, bee_name = n, bee_type = ''text/plain'', bee_size = sz, bee_lastModified = 0,
      bee_ownerId = ''u1'', bee_blobId = ''blob_'' @ n, bee_category = documents\<rparr>"

section \<open>Facts about the string functions\<close>

lemma startsWith_prefix: "startsWith s p = prefix p s"
  by (induction s p rule: startsWith.induct) auto

lemma includes_sublist: "includes_str s p = sublist p s"
proof (induction s)
  case Nil
  show ?case by (cases p) auto
next
  case (Cons d s)
  show ?case
    by (simp only: includes_str.simps Cons.IH startsWith_prefix sublist_Cons_right)
qed

section \<open>Classification\<close>

text \<open>
  C4, as the code has it. \<open>detectCategory\<close> is a function of the MIME type alone. A type
  that starts with \<open>image/\<close> is an image, one that starts with \<open>video/\<close> is a video;
  otherwise a type that contains one of \<open>pdf\<close>, \<open>text\<close>, \<open>word\<close>, \<open>presentation\<close>,
  \<open>sheet\<close> is a document, and every other type falls under others. The fifth substring
  of the source is \<open>sheet\<close>, not \<open>spreadsheet\<close>. In particular \<open>image/png\<close> is an
  image, \<open>application/pdf\<close> a document and \<open>audio/mpeg\<close> falls under others.
\<close>

theorem detectCategory_classes:
  "detectCategory m =
     (if prefix ''image/'' m then images
      else if prefix ''video/'' m then videos
      else if sublist ''pdf'' m \<or> sublist ''text'' m \<or> sublist ''word'' m
            \<or> sublist ''presentation'' m \<or> sublist ''sheet'' m then documents
      else others)
   \<and> detectCategory ''image/png'' = images
   \<and> detectCategory ''application/pdf'' = documents
   \<and> detectCategory ''audio/mpeg'' = others"
proof (intro conjI)
  show "detectCategory m =
     (if prefix ''image/'' m then images
      else if prefix ''video/'' m then videos
      else if sublist ''pdf'' m \<or> sublist ''text'' m \<or> sublist ''word'' m
            \<or> sublist ''presentation'' m \<or> sublist ''sheet'' m then documents
      else others)"
    by (simp add: detectCategory_def startsWith_prefix includes_sublist)
  show "detectCategory ''image/png'' = images"
    by (simp add: detectCategory_def)
  show "detectCategory ''application/pdf'' = documents"
    by (simp add: detectCategory_def)
  show "detectCategory ''audio/mpeg'' = others"
    by (simp add: detectCategory_def)
qed

text \<open>
  C4, as the specification states it, fails at \<open>application/x-sheet\<close>: the type starts with neither
  \<open>image/\<close> nor \<open>video/\<close> and contains none of \<open>pdf\<close>, \<open>text\<close>, \<open>word\<close>,
  \<open>presentation\<close>, \<open>spreadsheet\<close>, so the specification sends it to others; the code answers
  documents.
\<close>

theorem detectCategory_sheet_counterexample:
  "\<not> prefix ''image/'' ''application/x-sheet''
   \<and> \<not> prefix ''video/'' ''application/x-sheet''
   \<and> \<not> sublist ''pdf'' ''application/x-sheet''
   \<and> \<not> sublist ''text'' ''application/x-sheet''
   \<and> \<not> sublist ''word'' ''application/x-sheet''
   \<and> \<not> sublist ''presentation'' ''application/x-sheet''
   \<and> \<not> sublist ''spreadsheet'' ''application/x-sheet''
   \<and> detectCategory ''application/x-sheet'' = documents
   \<and> detectCategory ''application/x-sheet'' \<noteq> others"
  by (simp add: detectCategory_def includes_sublist [symmetric] startsWith_prefix [symmetric])

section \<open>The upload loop\<close>

lemma upload_loop_accepted:
  "upload_loop e u fileList acc s = upload_loop e u (accepted fileList) acc s"
  by (induction fileList arbitrary: acc s)
     (auto simp: accepted_def Let_def saveFileBlob_def split: prod.splits sum.splits)

lemma upload_loop_ok:
  assumes "\<forall>f\<in>set fs. \<not> file_size f > 300 * 1024 * 1024"
      and "\<forall>j<length fs. \<not> idb_fails e (idb_pos s + j)"
  shows "upload_loop e u fs acc s =
          (Inr (acc @ records_from e u (rnd_pos s) fs),
           s\<lparr>rnd_pos := rnd_pos s + length fs, idb_pos := idb_pos s + length fs,
             idb_store := put_all (zip (records_from e u (rnd_pos s) fs) fs) (idb_store s)\<rparr>)"
  using assms
proof (induction fs arbitrary: acc s)
  case Nil
  then show ?case by simp
next
  case (Cons f fs)
  let ?r = "make_beeFile u (random_id e (rnd_pos s)) f"
  let ?s2 = "s\<lparr>rnd_pos := Suc (rnd_pos s), idb_pos := Suc (idb_pos s),
                idb_store := (idb_store s)(bee_blobId ?r \<mapsto> f)\<rparr>"
  have ok: "\<not> idb_fails e (idb_pos s)" using Cons.prems(2) by force
  have small: "\<not> file_size f > 300 * 1024 * 1024" using Cons.prems(1) by simp
  have step: "upload_loop e u (f # fs) acc s = upload_loop e u fs (acc @ [?r]) ?s2"
    using ok small by (simp add: saveFileBlob_def Let_def)
  have b: "\<forall>j<length fs. \<not> idb_fails e (idb_pos ?s2 + j)"
    using Cons.prems(2) by force
  have a: "\<forall>f\<in>set fs. \<not> file_size f > 300 * 1024 * 1024" using Cons.prems(1) by simp
  from a b have "upload_loop e u fs (acc @ [?r]) ?s2 =
          (Inr ((acc @ [?r]) @ records_from e u (rnd_pos ?s2) fs),
           ?s2\<lparr>rnd_pos := rnd_pos ?s2 + length fs, idb_pos := idb_pos ?s2 + length fs,
             idb_store := put_all (zip (records_from e u (rnd_pos ?s2) fs) fs) (idb_store ?s2)\<rparr>)"
    by (rule Cons.IH)
  with step show ?case by simp
qed

lemma upload_loop_fail:
  assumes "\<forall>f\<in>set fs. \<not> file_size f > 300 * 1024 * 1024"
      and "k < length fs" and "idb_fails e (idb_pos s + k)"
      and "\<forall>j<k. \<not> idb_fails e (idb_pos s + j)"
  shows "upload_loop e u fs acc s =
          (Inl WriteFailed,
           s\<lparr>rnd_pos := rnd_pos s + Suc k, idb_pos := idb_pos s + Suc k,
             idb_store := put_all (zip (records_from e u (rnd_pos s) (take k fs)) (take k fs)) (idb_store s)\<rparr>)"
  using assms
proof (induction fs arbitrary: acc s k)
  case Nil
  then show ?case by simp
next
  case (Cons f fs)
  have small: "\<not> file_size f > 300 * 1024 * 1024" using Cons.prems(1) by simp
  show ?case
  proof (cases k)
    case 0
    then show ?thesis using Cons.prems(3) small by (simp add: saveFileBlob_def Let_def)
  next
    case (Suc k')
    let ?r = "make_beeFile u (random_id e (rnd_pos s)) f"
    let ?s2 = "s\<lparr>rnd_pos := Suc (rnd_pos s), idb_pos := Suc (idb_pos s),
                  idb_store := (idb_store s)(bee_blobId ?r \<mapsto> f)\<rparr>"
    have ok: "\<not> idb_fails e (idb_pos s)" using Cons.prems(4) Suc by force
    have step: "upload_loop e u (f # fs) acc s = upload_loop e u fs (acc @ [?r]) ?s2"
      using ok small by (simp add: saveFileBlob_def Let_def)
    have a: "\<forall>f\<in>set fs. \<not> file_size f > 300 * 1024 * 1024" using Cons.prems(1) by simp
    have b: "k' < length fs" using Cons.prems(2) Suc by simp
    have c: "idb_fails e (idb_pos ?s2 + k')" using Cons.prems(3) Suc by simp
    have d: "\<forall>j<k'. \<not> idb_fails e (idb_pos ?s2 + j)"
    proof (intro allI impI)
      fix j assume "j < k'"
      then have "Suc j < k" using Suc by simp
      then have "\<not> idb_fails e (idb_pos s + Suc j)" using Cons.prems(4) by blast
      then show "\<not> idb_fails e (idb_pos ?s2 + j)" by simp
    qed
    have ih: "upload_loop e u fs (acc @ [?r]) ?s2 =
          (Inl WriteFailed,
           ?s2\<lparr>rnd_pos := rnd_pos ?s2 + Suc k', idb_pos := idb_pos ?s2 + Suc k',
             idb_store := put_all (zip (records_from e u (rnd_pos ?s2) (take k' fs)) (take k' fs))
                            (idb_store ?s2)\<rparr>)"
      by (rule Cons.IH [OF a b c d])
    show ?thesis unfolding step ih Suc by simp
  qed
qed

lemma stored_once_eq:
  "stored_once =
     \<lparr>user = Some demo_user,
      files = [make_beeFile demo_user ''a'' (demo_file ''n'' 2 [1, 2])],
      uploadStatus = SUCCESS,
      meta_item = Some [make_beeFile demo_user ''a'' (demo_file ''n'' 2 [1, 2])],
      idb_store = [''blob_a'' \<mapsto> demo_file ''n'' 2 [1, 2]],
      rnd_pos = 1, idb_pos = 1\<rparr>"
  by (simp add: stored_once_def handleUpload_def initial_state_def demo_env_def saveFileBlob_def
      Let_def getMetadata_def saveMetadata_def demo_file_def make_beeFile_def)

section \<open>Uploading\<close>

lemma handleUpload_first_failure:
  assumes u: "user s = Some u"
      and k: "k < length (accepted fileList)"
      and bad: "idb_fails e (idb_pos s + k)"
      and good: "\<forall>j<k. \<not> idb_fails e (idb_pos s + j)"
  shows "handleUpload e fileList s =
           s\<lparr>uploadStatus := ERROR, rnd_pos := rnd_pos s + Suc k, idb_pos := idb_pos s + Suc k,
             idb_store := put_all (zip (records_from e u (rnd_pos s) (take k (accepted fileList)))
                                       (take k (accepted fileList))) (idb_store s)\<rparr>"
proof -
  let ?s0 = "s\<lparr>uploadStatus := UPLOADING\<rparr>"
  have a: "\<forall>f\<in>set (accepted fileList). \<not> file_size f > 300 * 1024 * 1024"
    by (simp add: accepted_def)
  have "upload_loop e u fileList [] ?s0 = upload_loop e u (accepted fileList) [] ?s0"
    by (rule upload_loop_accepted)
  also have "\<dots> = (Inl WriteFailed,
           ?s0\<lparr>rnd_pos := rnd_pos ?s0 + Suc k, idb_pos := idb_pos ?s0 + Suc k,
             idb_store := put_all (zip (records_from e u (rnd_pos ?s0) (take k (accepted fileList)))
                                       (take k (accepted fileList))) (idb_store ?s0)\<rparr>)"
    using k bad good by (intro upload_loop_fail [OF a]) simp_all
  finally show ?thesis using u by (simp add: handleUpload_def)
qed

lemma handleUpload_all_written:
  assumes u: "user s = Some u"
      and good: "\<forall>j<length (accepted fileList). \<not> idb_fails e (idb_pos s + j)"
  shows "handleUpload e fileList s =
           s\<lparr>uploadStatus := SUCCESS,
             rnd_pos := rnd_pos s + length (accepted fileList),
             idb_pos := idb_pos s + length (accepted fileList),
             idb_store := put_all (zip (records_from e u (rnd_pos s) (accepted fileList))
                                       (accepted fileList)) (idb_store s),
             meta_item := Some (getMetadata s @ records_from e u (rnd_pos s) (accepted fileList)),
             files := files s @ records_from e u (rnd_pos s) (accepted fileList)\<rparr>"
proof -
  let ?s0 = "s\<lparr>uploadStatus := UPLOADING\<rparr>"
  have a: "\<forall>f\<in>set (accepted fileList). \<not> file_size f > 300 * 1024 * 1024"
    by (simp add: accepted_def)
  have "upload_loop e u fileList [] ?s0 = upload_loop e u (accepted fileList) [] ?s0"
    by (rule upload_loop_accepted)
  also have "\<dots> = (Inr ([] @ records_from e u (rnd_pos ?s0) (accepted fileList)),
           ?s0\<lparr>rnd_pos := rnd_pos ?s0 + length (accepted fileList),
               idb_pos := idb_pos ?s0 + length (accepted fileList),
             idb_store := put_all (zip (records_from e u (rnd_pos ?s0) (accepted fileList))
                                       (accepted fileList)) (idb_store ?s0)\<rparr>)"
    using good by (intro upload_loop_ok [OF a]) simp_all
  finally show ?thesis using u
    by (simp add: handleUpload_def Let_def getMetadata_def saveMetadata_def)
qed

lemma length_records_from: "length (records_from e u p fs) = length fs"
  by (induction fs arbitrary: p) auto









section \<open>Deleting\<close>

lemma handleDelete_found:
  assumes "find (\<lambda>f. bee_id f = ident) (files s) = Some r"
  shows "handleDelete e True ident s =
     (if idb_fails e (idb_pos s) then (Inl DeleteFailed, s\<lparr>idb_pos := Suc (idb_pos s)\<rparr>)
      else (Inr (),
            s\<lparr>idb_pos := Suc (idb_pos s),
              idb_store := (idb_store s)(bee_blobId r := None),
              files := filter (\<lambda>f. bee_id f \<noteq> ident) (files s),
              meta_item := Some (filter (\<lambda>f. bee_id f \<noteq> ident) (getMetadata s))\<rparr>))"
  using assms
  by (simp add: handleDelete_def deleteFileBlob_def Let_def getMetadata_def saveMetadata_def)

lemma find_filter_neq: "find (\<lambda>f. g f = i) (filter (\<lambda>f. g f \<noteq> i) xs) = None"
  by (induction xs) auto

text \<open>
  C1, as the code has it. When \<open>handleDelete\<close> is confirmed and finds the record in the
  view, it first asks the object store to delete the blob (one request is made). If that
  request is rejected the handler is rejected with it and stops there: the metadata, the
  view and the object store are what they were. Only when the blob was deleted is the
  record filtered out of the view and of the metadata, and the metadata stored.
\<close>

theorem handleDelete_blob_then_metadata:
  assumes "find (\<lambda>f. bee_id f = ident) (files s) = Some r"
  shows "idb_pos (snd (handleDelete e True ident s)) = Suc (idb_pos s)
       \<and> (idb_fails e (idb_pos s) \<longrightarrow>
            fst (handleDelete e True ident s) = Inl DeleteFailed
          \<and> getMetadata (snd (handleDelete e True ident s)) = getMetadata s
          \<and> meta_item (snd (handleDelete e True ident s)) = meta_item s
          \<and> files (snd (handleDelete e True ident s)) = files s
          \<and> idb_store (snd (handleDelete e True ident s)) = idb_store s)
       \<and> (\<not> idb_fails e (idb_pos s) \<longrightarrow>
            fst (handleDelete e True ident s) = Inr ()
          \<and> idb_store (snd (handleDelete e True ident s)) = (idb_store s)(bee_blobId r := None)
          \<and> getMetadata (snd (handleDelete e True ident s))
              = filter (\<lambda>f. bee_id f \<noteq> ident) (getMetadata s)
          \<and> files (snd (handleDelete e True ident s))
              = filter (\<lambda>f. bee_id f \<noteq> ident) (files s))"
  by (simp add: handleDelete_found [OF assms] getMetadata_def)

text \<open>
  The witness: the record \<open>a\<close> of \<open>stored_once\<close>, deleted once with a request that
  succeeds and once with a request that is rejected.
\<close>

theorem handleDelete_blob_then_metadata_witness:
  "find (\<lambda>f. bee_id f = ''a'') (files stored_once)
     = Some (make_beeFile demo_user ''a'' (demo_file ''n'' 2 [1, 2]))
   \<and> fst (handleDelete (demo_env [] []) True ''a'' stored_once) = Inr ()
   \<and> getMetadata (snd (handleDelete (demo_env [] []) True ''a'' stored_once)) = []
   \<and> fst (handleDelete (demo_env [] [1]) True ''a'' stored_once) = Inl DeleteFailed
   \<and> getMetadata (snd (handleDelete (demo_env [] [1]) True ''a'' stored_once)) = getMetadata stored_once"
proof -
  have h: "find (\<lambda>f. bee_id f = ''a'') (files stored_once)
     = Some (make_beeFile demo_user ''a'' (demo_file ''n'' 2 [1, 2]))"
    by (simp add: stored_once_eq make_beeFile_def)
  have ok: "\<not> idb_fails (demo_env [] []) (idb_pos stored_once)"
    by (simp add: demo_env_def)
  have bad: "idb_fails (demo_env [] [1]) (idb_pos stored_once)"
    by (simp add: demo_env_def stored_once_eq)
  have m: "filter (\<lambda>f. bee_id f \<noteq> ''a'') (getMetadata stored_once) = []"
    by (simp add: stored_once_eq getMetadata_def make_beeFile_def)
  from handleDelete_blob_then_metadata [OF h, of "demo_env [] []"] ok m
  have 1: "fst (handleDelete (demo_env [] []) True ''a'' stored_once) = Inr ()
     \<and> getMetadata (snd (handleDelete (demo_env [] []) True ''a'' stored_once)) = []"
    by simp
  from handleDelete_blob_then_metadata [OF h, of "demo_env [] [1]"] bad
  have 2: "fst (handleDelete (demo_env [] [1]) True ''a'' stored_once) = Inl DeleteFailed
   \<and> getMetadata (snd (handleDelete (demo_env [] [1]) True ''a'' stored_once)) = getMetadata stored_once"
    by simp
  from h 1 2 show ?thesis by blast
qed

text \<open>
  C1, as the specification states it, fails on \<open>stored_once\<close> when the delete request (the second
  request to IndexedDB) is rejected: the handler is rejected and the record \<open>a\<close> is
  still in the metadata.
\<close>

theorem handleDelete_rejected_counterexample:
  "fst (handleDelete (demo_env [] [1]) True ''a'' stored_once) = Inl DeleteFailed
   \<and> map bee_id (getMetadata stored_once) = [''a'']
   \<and> map bee_id (getMetadata (snd (handleDelete (demo_env [] [1]) True ''a'' stored_once))) = [''a'']"
  by (simp add: stored_once_eq handleDelete_def deleteFileBlob_def demo_env_def Let_def
      getMetadata_def saveMetadata_def make_beeFile_def)

text \<open>
  C2, as the code has it. After a confirmed \<open>handleDelete\<close> that was fulfilled, a second
  \<open>handleDelete\<close> of the same identifier is fulfilled too, whatever the answer to the
  confirmation, and returns the state it was given: the view, the metadata and the object
  store are unchanged and no request is made. No error is signalled.
\<close>

theorem handleDelete_again_noop:
  assumes "handleDelete e True ident s = (Inr (), s1)"
  shows "handleDelete e confirmed ident s1 = (Inr (), s1)"
proof (cases "find (\<lambda>f. bee_id f = ident) (files s)")
  case None
  then have "s1 = s" using assms by (simp add: handleDelete_def)
  then show ?thesis using None by (simp add: handleDelete_def)
next
  case (Some r)
  from assms have "files s1 = filter (\<lambda>f. bee_id f \<noteq> ident) (files s)"
    by (auto simp: handleDelete_found [OF Some] split: if_splits)
  then have "find (\<lambda>f. bee_id f = ident) (files s1) = None"
    by (simp add: find_filter_neq)
  then show ?thesis by (simp add: handleDelete_def)
qed

theorem handleDelete_again_noop_witness:
  "handleDelete (demo_env [] []) True ''a'' stored_once
     = (Inr (), snd (handleDelete (demo_env [] []) True ''a'' stored_once))
   \<and> handleDelete (demo_env [] []) True ''a'' (snd (handleDelete (demo_env [] []) True ''a'' stored_once))
     = (Inr (), snd (handleDelete (demo_env [] []) True ''a'' stored_once))"
proof -
  have h: "handleDelete (demo_env [] []) True ''a'' stored_once
     = (Inr (), snd (handleDelete (demo_env [] []) True ''a'' stored_once))"
    by (simp add: stored_once_eq handleDelete_def deleteFileBlob_def demo_env_def Let_def
      getMetadata_def saveMetadata_def make_beeFile_def)
  from handleDelete_again_noop [OF h] h show ?thesis by blast
qed

text \<open>
  C2, as the specification states it, fails on \<open>stored_once\<close>: the second deletion of \<open>a\<close> is
  fulfilled, it is not rejected with \<open>NotFound\<close>.
\<close>

theorem handleDelete_again_counterexample:
  "fst (handleDelete (demo_env [] []) True ''a'' stored_once) = Inr ()
   \<and> fst (handleDelete (demo_env [] []) True ''a''
            (snd (handleDelete (demo_env [] []) True ''a'' stored_once))) = Inr ()
   \<and> fst (handleDelete (demo_env [] []) True ''a''
            (snd (handleDelete (demo_env [] []) True ''a'' stored_once))) \<noteq> Inl NotFound"
  by (simp add: stored_once_eq handleDelete_def deleteFileBlob_def demo_env_def Let_def
      getMetadata_def saveMetadata_def make_beeFile_def)

section \<open>Identifiers\<close>

lemma demo_env_sel:
  "random_id (demo_env ids bad) n = (if n < length ids then ids ! n else [])"
  "idb_fails (demo_env ids bad) n = (n \<in> set bad)"
  by (simp_all add: demo_env_def)

lemma same_id_twice:
  "handleUpload (demo_env [''x'', ''x''] []) two_files (initial_state demo_user) =
     \<lparr>user = Some demo_user,
      files = [make_beeFile demo_user ''x'' (demo_file ''p'' 1 [1]),
               make_beeFile demo_user ''x'' (demo_file ''q'' 1 [2])],
      uploadStatus = SUCCESS,
      meta_item = Some [make_beeFile demo_user ''x'' (demo_file ''p'' 1 [1]),
                        make_beeFile demo_user ''x'' (demo_file ''q'' 1 [2])],
      idb_store = [''blob_x'' \<mapsto> demo_file ''q'' 1 [2]],
      rnd_pos = 2, idb_pos = 2\<rparr>"
  by (simp add: two_files_def handleUpload_def initial_state_def demo_env_def saveFileBlob_def
      Let_def getMetadata_def saveMetadata_def demo_file_def make_beeFile_def)

lemma two_ids:
  "handleUpload (demo_env [''a'', ''b''] []) two_files (initial_state demo_user) =
     \<lparr>user = Some demo_user,
      files = [make_beeFile demo_user ''a'' (demo_file ''p'' 1 [1]),
               make_beeFile demo_user ''b'' (demo_file ''q'' 1 [2])],
      uploadStatus = SUCCESS,
      meta_item = Some [make_beeFile demo_user ''a'' (demo_file ''p'' 1 [1]),
                        make_beeFile demo_user ''b'' (demo_file ''q'' 1 [2])],
      idb_store = [''blob_a'' \<mapsto> demo_file ''p'' 1 [1], ''blob_b'' \<mapsto> demo_file ''q'' 1 [2]],
      rnd_pos = 2, idb_pos = 2\<rparr>"
  by (simp add: two_files_def handleUpload_def initial_state_def demo_env_def saveFileBlob_def
      Let_def getMetadata_def saveMetadata_def demo_file_def make_beeFile_def)

lemma ids_records_from:
  "map bee_id (records_from e u p fs) = map (random_id e) [p ..< p + length fs]"
proof (induction fs arbitrary: p)
  case Nil
  show ?case by simp
next
  case (Cons f fs)
  have "[p ..< p + length (f # fs)] = p # [Suc p ..< p + length (f # fs)]"
    by (rule upt_conv_Cons) simp
  moreover have "p + length (f # fs) = Suc p + length fs" by simp
  ultimately have "[p ..< p + length (f # fs)] = p # [Suc p ..< Suc p + length fs]"
    by (simp only:)
  moreover have "map bee_id (records_from e u p (f # fs))
                  = random_id e p # map (random_id e) [Suc p ..< Suc p + length fs]"
    by (simp add: Cons.IH make_beeFile_def)
  ultimately show ?case by (simp only: list.map)
qed

lemma handleUpload_cases:
  obtains (rejected) k where "k < length (accepted fileList)" "idb_fails e (idb_pos s + k)"
      "\<forall>j<k. \<not> idb_fails e (idb_pos s + j)"
  | (written) "\<forall>j<length (accepted fileList). \<not> idb_fails e (idb_pos s + j)"
proof (cases "\<exists>j<length (accepted fileList). idb_fails e (idb_pos s + j)")
  case True
  define k where "k = (LEAST j. j < length (accepted fileList) \<and> idb_fails e (idb_pos s + j))"
  from True have "k < length (accepted fileList) \<and> idb_fails e (idb_pos s + k)"
    unfolding k_def by (rule LeastI_ex)
  moreover have "\<forall>j<k. \<not> idb_fails e (idb_pos s + j)"
  proof (intro allI impI notI)
    fix j assume j: "j < k" and f: "idb_fails e (idb_pos s + j)"
    from j calculation have "j < length (accepted fileList)" by simp
    with f have "k \<le> j" unfolding k_def by (intro Least_le) simp
    with j show False by simp
  qed
  ultimately show ?thesis using rejected by blast
next
  case False
  then show ?thesis using written by blast
qed

lemma handleUpload_ids_ok:
  assumes inj: "inj_on (random_id e) {..<rnd_pos (handleUpload e fileList s)}"
      and inv: "ids_ok e s"
  shows "ids_ok e (handleUpload e fileList s) \<and> rnd_pos s \<le> rnd_pos (handleUpload e fileList s)"
proof (cases "user s")
  case None
  then show ?thesis using inv by (simp add: handleUpload_def)
next
  case (Some u)
  show ?thesis
  proof (cases fileList e s rule: handleUpload_cases)
    case (rejected k)
    note eq = handleUpload_first_failure [OF Some rejected]
    have "{..<rnd_pos s} \<subseteq> {..<rnd_pos s + Suc k}" by auto
    then have "random_id e ` {..<rnd_pos s} \<subseteq> random_id e ` {..<rnd_pos s + Suc k}"
      by (rule image_mono)
    moreover have "getMetadata (handleUpload e fileList s) = getMetadata s"
      by (simp add: eq getMetadata_def)
    moreover have "rnd_pos (handleUpload e fileList s) = rnd_pos s + Suc k"
      by (simp add: eq)
    ultimately show ?thesis using inv unfolding ids_ok_def by auto
  next
    case written
    note eq = handleUpload_all_written [OF Some written]
    let ?n = "length (accepted fileList)"
    let ?new = "records_from e u (rnd_pos s) (accepted fileList)"
    have pos: "rnd_pos (handleUpload e fileList s) = rnd_pos s + ?n" by (simp add: eq)
    have meta: "getMetadata (handleUpload e fileList s) = getMetadata s @ ?new"
      by (simp add: eq getMetadata_def)
    have inj': "inj_on (random_id e) {..<rnd_pos s + ?n}" using inj pos by simp
    have new_ids: "map bee_id ?new = map (random_id e) [rnd_pos s ..< rnd_pos s + ?n]"
      by (rule ids_records_from)
    have d_new: "distinct (map bee_id ?new)"
      unfolding new_ids by (rule distinct_map [THEN iffD2]) (auto intro: inj_on_subset [OF inj'])
    have disj: "set (map bee_id (getMetadata s)) \<inter> set (map bee_id ?new) = {}"
    proof -
      have "set (map bee_id ?new) = random_id e ` {rnd_pos s ..< rnd_pos s + ?n}"
        unfolding new_ids by simp
      moreover have "set (map bee_id (getMetadata s)) \<subseteq> random_id e ` {..<rnd_pos s}"
        using inv by (simp add: ids_ok_def)
      moreover have "random_id e ` {..<rnd_pos s} \<inter> random_id e ` {rnd_pos s ..< rnd_pos s + ?n} = {}"
      proof -
        have "random_id e ` {..<rnd_pos s} \<inter> random_id e ` {rnd_pos s ..< rnd_pos s + ?n}
              = random_id e ` ({..<rnd_pos s} \<inter> {rnd_pos s ..< rnd_pos s + ?n})"
          by (rule inj_on_image_Int [OF inj', symmetric]) auto
        also have "{..<rnd_pos s} \<inter> {rnd_pos s ..< rnd_pos s + ?n} = {}" by auto
        finally show ?thesis by simp
      qed
      ultimately show ?thesis by blast
    qed
    have sub: "bee_id ` set (getMetadata s @ ?new) \<subseteq> random_id e ` {..<rnd_pos s + ?n}"
    proof -
      have "bee_id ` set ?new = random_id e ` {rnd_pos s ..< rnd_pos s + ?n}"
        using new_ids by (metis set_map set_upt)
      moreover have "bee_id ` set (getMetadata s) \<subseteq> random_id e ` {..<rnd_pos s}"
        using inv by (simp add: ids_ok_def)
      moreover have "random_id e ` {rnd_pos s ..< rnd_pos s + ?n} \<subseteq> random_id e ` {..<rnd_pos s + ?n}"
        by (rule image_mono) auto
      moreover have "random_id e ` {..<rnd_pos s} \<subseteq> random_id e ` {..<rnd_pos s + ?n}"
        by (rule image_mono) auto
      ultimately show ?thesis unfolding set_append image_Un by blast
    qed
    show ?thesis
      using d_new disj sub inv unfolding ids_ok_def meta pos by simp
  qed
qed

lemma handleDelete_ids_ok:
  assumes inv: "ids_ok e s"
  shows "ids_ok e (snd (handleDelete e c i s)) \<and> rnd_pos (snd (handleDelete e c i s)) = rnd_pos s"
proof (cases "c \<and> find (\<lambda>f. bee_id f = i) (files s) \<noteq> None")
  case False
  then show ?thesis using inv by (auto simp: handleDelete_def)
next
  case True
  then obtain r where r: "find (\<lambda>f. bee_id f = i) (files s) = Some r" and c: "c = True" by auto
  have "getMetadata (snd (handleDelete e True i s)) = getMetadata s
      \<or> getMetadata (snd (handleDelete e True i s))
          = filter (\<lambda>f. bee_id f \<noteq> i) (getMetadata s)"
    by (simp add: handleDelete_found [OF r] getMetadata_def)
  moreover have "rnd_pos (snd (handleDelete e True i s)) = rnd_pos s"
    by (simp add: handleDelete_found [OF r])
  ultimately show ?thesis
    using inv unfolding c ids_ok_def by (auto simp: distinct_map_filter)
qed

lemma step_ids_ok:
  assumes "inj_on (random_id e) {..<rnd_pos (step e s a)}" and "ids_ok e s"
  shows "ids_ok e (step e s a) \<and> rnd_pos s \<le> rnd_pos (step e s a)"
proof (cases a)
  case (Upload fl)
  then show ?thesis using assms handleUpload_ids_ok by simp
next
  case (Delete i c)
  then show ?thesis using assms(2) handleDelete_ids_ok [of e s c i] by simp
qed

lemma run_ids_ok:
  assumes "inj_on (random_id e) {..<rnd_pos (run e acts s)}" and "ids_ok e s"
  shows "ids_ok e (run e acts s)"
  using assms
proof (induction acts rule: rev_induct)
  case Nil
  then show ?case by (simp add: run_def)
next
  case (snoc a acts)
  have eq: "run e (acts @ [a]) s = step e (run e acts s) a" by (simp add: run_def)
  have mono: "\<And>t. rnd_pos t \<le> rnd_pos (step e t a)"
  proof -
    fix t show "rnd_pos t \<le> rnd_pos (step e t a)"
    proof (cases a)
      case (Upload fl)
      show ?thesis
      proof (cases "user t")
        case None then show ?thesis using Upload by (simp add: handleUpload_def)
      next
        case (Some u)
        show ?thesis
        proof (cases fl e t rule: handleUpload_cases)
          case (rejected k)
          show ?thesis using Upload by (simp add: handleUpload_first_failure [OF Some rejected])
        next
          case written
          show ?thesis using Upload by (simp add: handleUpload_all_written [OF Some written])
        qed
      qed
    next
      case (Delete i c)
      show ?thesis
      proof (cases "c \<and> find (\<lambda>f. bee_id f = i) (files t) \<noteq> None")
        case False
        then show ?thesis using Delete by (auto simp: handleDelete_def)
      next
        case True
        then obtain r where r: "find (\<lambda>f. bee_id f = i) (files t) = Some r" and c: "c = True" by auto
        show ?thesis using Delete unfolding c by (simp add: handleDelete_found [OF r])
      qed
    qed
  qed
  have inj: "inj_on (random_id e) {..<rnd_pos (step e (run e acts s) a)}"
    using snoc.prems(1) unfolding eq .
  have "{..<rnd_pos (run e acts s)} \<subseteq> {..<rnd_pos (step e (run e acts s) a)}"
    using mono [of "run e acts s"] by auto
  with inj have "inj_on (random_id e) {..<rnd_pos (run e acts s)}"
    by (rule inj_on_subset)
  then have "ids_ok e (run e acts s)" using snoc.prems(2) by (rule snoc.IH)
  with inj show ?case unfolding eq using step_ids_ok by blast
qed

text \<open>
  C9, as the code has it. The code draws each identifier from \<^verbatim>\<open>Math.random\<close> and never
  compares it with another. If the identifiers drawn in the course of a sequence of
  uploads and deletions that starts from empty stores are pairwise distinct, then no two
  records of the metadata have the same \<open>id\<close> at the end of the sequence.
\<close>

theorem run_ids_distinct:
  assumes "inj_on (random_id e) {..<rnd_pos (run e acts (initial_state u))}"
  shows "distinct (map bee_id (getMetadata (run e acts (initial_state u))))"
proof -
  have "ids_ok e (initial_state u)"
    by (simp add: ids_ok_def initial_state_def getMetadata_def)
  with assms have "ids_ok e (run e acts (initial_state u))" by (rule run_ids_ok)
  then show ?thesis by (simp add: ids_ok_def)
qed

text \<open>
  The witness: the identifiers \<open>a\<close> and \<open>b\<close> are drawn for a batch of two files, and the
  record \<open>a\<close> is deleted afterwards.
\<close>

theorem run_ids_distinct_witness:
  "inj_on (random_id (demo_env [''a'', ''b''] []))
     {..<rnd_pos (run (demo_env [''a'', ''b''] []) [Upload two_files, Delete ''a'' True]
                    (initial_state demo_user))}
   \<and> distinct (map bee_id (getMetadata
         (run (demo_env [''a'', ''b''] []) [Upload two_files, Delete ''a'' True]
            (initial_state demo_user))))"
proof -
  let ?e = "demo_env [''a'', ''b''] []"
  have p: "rnd_pos (run ?e [Upload two_files, Delete ''a'' True] (initial_state demo_user)) = 2"
    by (simp add: run_def two_ids handleDelete_def deleteFileBlob_def Let_def getMetadata_def
        saveMetadata_def make_beeFile_def demo_env_sel)
  have "{..<(2::nat)} = {0, 1}" by auto
  then have h: "inj_on (random_id ?e)
     {..<rnd_pos (run ?e [Upload two_files, Delete ''a'' True] (initial_state demo_user))}"
    unfolding p by (simp add: demo_env_sel)
  from run_ids_distinct [OF h] h show ?thesis by blast
qed

text \<open>
  C9, as the specification states it, fails when the generator returns \<open>x\<close> twice: after one
  upload of two files into empty stores the metadata holds two records of \<open>id\<close> \<open>x\<close>.
\<close>

theorem run_same_id_counterexample:
  "map bee_id (getMetadata (run (demo_env [''x'', ''x''] []) [Upload two_files]
      (initial_state demo_user))) = [''x'', ''x'']
   \<and> \<not> distinct (map bee_id (getMetadata (run (demo_env [''x'', ''x''] []) [Upload two_files]
      (initial_state demo_user))))"
  by (simp add: run_def same_id_twice getMetadata_def make_beeFile_def)

section \<open>Round trip\<close>

lemma put_all_other: "k \<notin> bee_blobId ` fst ` set rfs \<Longrightarrow> put_all rfs m k = m k"
proof (induction rfs arbitrary: m)
  case Nil
  show ?case by simp
next
  case (Cons rf rfs)
  obtain r f where rf: "rf = (r, f)" by (cases rf)
  from Cons.prems have "k \<noteq> bee_blobId r" and "k \<notin> bee_blobId ` fst ` set rfs"
    unfolding rf by auto
  then show ?case unfolding rf by (simp add: Cons.IH)
qed

lemma put_all_nth:
  assumes "distinct (map (\<lambda>rf. bee_blobId (fst rf)) rfs)" and "j < length rfs"
  shows "put_all rfs m (bee_blobId (fst (rfs ! j))) = Some (snd (rfs ! j))"
  using assms
proof (induction rfs arbitrary: m j)
  case Nil
  then show ?case by simp
next
  case (Cons rf rfs)
  obtain r f where rf: "rf = (r, f)" by (cases rf)
  show ?case
  proof (cases j)
    case 0
    have "bee_blobId r \<notin> bee_blobId ` fst ` set rfs"
      using Cons.prems(1) unfolding rf by (auto simp: image_iff)
    then have "put_all rfs (m(bee_blobId r \<mapsto> f)) (bee_blobId r) = (m(bee_blobId r \<mapsto> f)) (bee_blobId r)"
      by (rule put_all_other)
    then show ?thesis unfolding rf 0 by simp
  next
    case (Suc j')
    have "put_all rfs (m(bee_blobId r \<mapsto> f)) (bee_blobId (fst (rfs ! j'))) = Some (snd (rfs ! j'))"
      using Cons.prems Suc by (intro Cons.IH) simp_all
    then show ?thesis unfolding rf Suc by simp
  qed
qed

lemma blobIds_records_from:
  "map bee_blobId (records_from e u p fs) = map (\<lambda>i. ''blob_'' @ i) (map bee_id (records_from e u p fs))"
  by (induction fs arbitrary: p) (simp_all add: make_beeFile_def)

lemma owner_records_from:
  "filter (\<lambda>f. bee_ownerId f = user_id u) (records_from e u p fs) = records_from e u p fs"
  by (induction fs arbitrary: p) (simp_all add: make_beeFile_def)

lemma handleUpload_success_written:
  assumes u: "user s = Some u" and ok: "uploadStatus (handleUpload e fileList s) = SUCCESS"
  shows "\<forall>j<length (accepted fileList). \<not> idb_fails e (idb_pos s + j)"
proof (cases fileList e s rule: handleUpload_cases)
  case (rejected k)
  have "uploadStatus (handleUpload e fileList s) = ERROR"
    by (simp add: handleUpload_first_failure [OF u rejected])
  with ok show ?thesis by simp
next
  case written
  then show ?thesis .
qed

text \<open>
  C6, as the code has it. Take an upload of a signed-in user that ended with the status
  \<open>SUCCESS\<close>, and let the identifiers drawn for it be pairwise distinct. Then what
  \<open>list(ownerId)\<close> returns afterwards is what it returned before, followed by the records
  of the accepted files of the batch, one for each, in their order and with pairwise
  distinct \<open>id\<close>s; and for each of these records the object store holds, under its
  \<open>blobId\<close>, the very file it was built for, which is what \<open>getFileBlob\<close> returns when
  its request succeeds.
\<close>

theorem upload_round_trip:
  assumes u: "user s = Some u"
      and ok: "uploadStatus (handleUpload e fileList s) = SUCCESS"
      and fresh: "inj_on (random_id e) {rnd_pos s ..< rnd_pos (handleUpload e fileList s)}"
  shows "list_owned (user_id u) (handleUpload e fileList s)
           = list_owned (user_id u) s @ records_from e u (rnd_pos s) (accepted fileList)
       \<and> distinct (map bee_id (records_from e u (rnd_pos s) (accepted fileList)))
       \<and> (\<forall>j<length (accepted fileList).
            idb_store (handleUpload e fileList s)
              (bee_blobId (records_from e u (rnd_pos s) (accepted fileList) ! j))
              = Some (accepted fileList ! j)
          \<and> (\<not> idb_fails e (idb_pos (handleUpload e fileList s)) \<longrightarrow>
               fst (getFileBlob e (bee_blobId (records_from e u (rnd_pos s) (accepted fileList) ! j))
                      (handleUpload e fileList s))
               = Inr (Some (accepted fileList ! j))))"
proof -
  let ?fs = "accepted fileList"
  let ?n = "length ?fs"
  let ?new = "records_from e u (rnd_pos s) ?fs"
  let ?s' = "handleUpload e fileList s"
  note eq = handleUpload_all_written [OF u handleUpload_success_written [OF u ok]]
  have pos: "rnd_pos ?s' = rnd_pos s + ?n" by (simp add: eq)
  have meta: "getMetadata ?s' = getMetadata s @ ?new" by (simp add: eq getMetadata_def)
  have store: "idb_store ?s' = put_all (zip ?new ?fs) (idb_store s)" by (simp add: eq)
  have len: "length ?new = ?n" by (rule length_records_from)
  have 1: "list_owned (user_id u) ?s' = list_owned (user_id u) s @ ?new"
    by (simp add: list_owned_def meta owner_records_from)
  have ids: "map bee_id ?new = map (random_id e) [rnd_pos s ..< rnd_pos s + ?n]"
    by (rule ids_records_from)
  have 2: "distinct (map bee_id ?new)"
    unfolding ids using fresh pos by (simp add: distinct_map)
  have "distinct (map bee_blobId ?new)"
    unfolding blobIds_records_from using 2 by (simp add: distinct_map inj_on_def)
  moreover have "map (\<lambda>rf. bee_blobId (fst rf)) (zip ?new ?fs) = map bee_blobId ?new"
  proof -
    have "map (\<lambda>rf. bee_blobId (fst rf)) (zip ?new ?fs) = map bee_blobId (map fst (zip ?new ?fs))"
      by simp
    also have "map fst (zip ?new ?fs) = ?new" using len by (intro map_fst_zip) simp
    finally show ?thesis .
  qed
  ultimately have d: "distinct (map (\<lambda>rf. bee_blobId (fst rf)) (zip ?new ?fs))" by simp
  have 3: "\<forall>j<?n. idb_store ?s' (bee_blobId (?new ! j)) = Some (?fs ! j)"
  proof (intro allI impI)
    fix j assume j: "j < ?n"
    then have "j < length (zip ?new ?fs)" by (simp add: len)
    from put_all_nth [OF d this, of "idb_store s"] j
    show "idb_store ?s' (bee_blobId (?new ! j)) = Some (?fs ! j)"
      by (simp add: store len)
  qed
  show ?thesis using 1 2 3 by (simp add: getFileBlob_def Let_def)
qed

text \<open>The witness: the two files, stored under the identifiers \<open>a\<close> and \<open>b\<close>.\<close>

theorem upload_round_trip_witness:
  "user (initial_state demo_user) = Some demo_user
   \<and> uploadStatus (handleUpload (demo_env [''a'', ''b''] []) two_files (initial_state demo_user))
       = SUCCESS
   \<and> inj_on (random_id (demo_env [''a'', ''b''] []))
       {rnd_pos (initial_state demo_user)
        ..< rnd_pos (handleUpload (demo_env [''a'', ''b''] []) two_files (initial_state demo_user))}
   \<and> list_owned (user_id demo_user)
        (handleUpload (demo_env [''a'', ''b''] []) two_files (initial_state demo_user))
       = records_from (demo_env [''a'', ''b''] []) demo_user 0 two_files
   \<and> distinct (map bee_id (records_from (demo_env [''a'', ''b''] []) demo_user 0 two_files))"
proof -
  let ?e = "demo_env [''a'', ''b''] []"
  let ?s = "initial_state demo_user"
  have u: "user ?s = Some demo_user" by (simp add: initial_state_def)
  have ok: "uploadStatus (handleUpload ?e two_files ?s) = SUCCESS" by (simp add: two_ids)
  have p': "rnd_pos (handleUpload ?e two_files ?s) = 2" by (simp add: two_ids)
  have c: "rnd_pos ?s = 0" by (simp add: initial_state_def)
  have "{0 ..< (2::nat)} = {0, 1}" by auto
  then have fresh: "inj_on (random_id ?e) {rnd_pos ?s ..< rnd_pos (handleUpload ?e two_files ?s)}"
    unfolding p' c by (simp add: demo_env_sel)
  have a: "accepted two_files = two_files"
    by (simp add: accepted_def two_files_def demo_file_def)
  have b: "list_owned (user_id demo_user) ?s = []"
    by (simp add: list_owned_def getMetadata_def initial_state_def)
  from upload_round_trip [OF u ok fresh] u ok fresh show ?thesis
    unfolding a b c by simp
qed

text \<open>
  C6, as the specification states it, fails when the generator returns \<open>x\<close> for both files of a
  batch. The upload succeeds and the user's list holds the records of \<open>p\<close> and \<open>q\<close>,
  both with the key \<open>blob_x\<close>; the second write replaced the first, so the blob fetched
  for the record of \<open>p\<close> is the file \<open>q\<close>, whose content differs from that of \<open>p\<close>.
\<close>

theorem upload_round_trip_counterexample:
  "uploadStatus (handleUpload (demo_env [''x'', ''x''] []) two_files (initial_state demo_user))
     = SUCCESS
   \<and> map bee_name (list_owned ''u1''
        (handleUpload (demo_env [''x'', ''x''] []) two_files (initial_state demo_user)))
     = [''p'', ''q'']
   \<and> map bee_blobId (list_owned ''u1''
        (handleUpload (demo_env [''x'', ''x''] []) two_files (initial_state demo_user)))
     = [''blob_x'', ''blob_x'']
   \<and> fst (getFileBlob (demo_env [''x'', ''x''] []) ''blob_x''
        (handleUpload (demo_env [''x'', ''x''] []) two_files (initial_state demo_user)))
     = Inr (Some (demo_file ''q'' 1 [2]))
   \<and> file_content (demo_file ''q'' 1 [2]) \<noteq> file_content (demo_file ''p'' 1 [1])"
  unfolding same_id_twice
  by (simp add: list_owned_def getMetadata_def make_beeFile_def getFileBlob_def
      Let_def demo_env_sel demo_file_def demo_user_def)

section \<open>The sorted view\<close>









lemma consistent_flip:
  assumes "consistent lc"
  shows "(lc a b \<le> 0) = (0 \<le> lc b a)"
proof -
  have "(lc b a < 0) = (0 < lc a b)" using assms unfolding consistent_def by blast
  then show ?thesis by arith
qed

lemma consistent_trans:
  assumes "consistent lc" and "lc a b \<le> 0" and "lc b c \<le> 0"
  shows "lc a c \<le> 0"
  using assms unfolding consistent_def by blast

lemma consistent_trans_rev:
  assumes c: "consistent lc" and "0 \<le> lc a b" and "0 \<le> lc b c"
  shows "0 \<le> lc a c"
proof -
  have "lc c b \<le> 0" and "lc b a \<le> 0"
    using assms(2,3) by (simp_all add: consistent_flip [OF c])
  then have "lc c a \<le> 0" by (rule consistent_trans [OF c])
  then show ?thesis by (simp add: consistent_flip [OF c])
qed


















section \<open>Sizes as text\<close>

lemma unit_index_bounds:
  "0 < n \<Longrightarrow> 1024 ^ unit_index n \<le> n \<and> n < 1024 ^ Suc (unit_index n)"
proof (induction n rule: unit_index.induct)
  case (1 n)
  show ?case
  proof (cases "n < 1024")
    case True
    then show ?thesis using "1.prems" by (simp add: unit_index.simps [of n])
  next
    case False
    then have pos: "0 < n div 1024" by simp
    have ih: "1024 ^ unit_index (n div 1024) \<le> n div 1024
            \<and> n div 1024 < 1024 ^ Suc (unit_index (n div 1024))"
      using "1.IH" [OF False pos] .
    have eq: "unit_index n = Suc (unit_index (n div 1024))"
      using False by (simp add: unit_index.simps [of n])
    have lo: "1024 * 1024 ^ unit_index (n div 1024) \<le> n"
    proof -
      have "1024 * 1024 ^ unit_index (n div 1024) \<le> 1024 * (n div 1024)"
        using ih by simp
      also have "\<dots> \<le> n" by simp
      finally show ?thesis .
    qed
    have hi: "n < 1024 * 1024 ^ Suc (unit_index (n div 1024))"
    proof -
      have "Suc (n div 1024) \<le> 1024 ^ Suc (unit_index (n div 1024))" using ih by simp
      then have "1024 * Suc (n div 1024) \<le> 1024 * 1024 ^ Suc (unit_index (n div 1024))"
        by (rule mult_le_mono2)
      moreover have "n < 1024 * Suc (n div 1024)"
        using dividend_less_times_div [of 1024 n] by simp
      ultimately show ?thesis by linarith
    qed
    show ?thesis unfolding eq using lo hi by simp
  qed
qed

lemma unit_index_unique:
  assumes "1024 ^ i \<le> n" and "n < 1024 ^ Suc i"
  shows "unit_index n = i"
proof -
  have pos: "0 < n" using assms(1) by (cases "n = 0") simp_all
  note b = unit_index_bounds [OF pos]
  have "(1024::nat) ^ i < 1024 ^ Suc (unit_index n)" using assms(1) b by linarith
  then have 1: "i < Suc (unit_index n)" by (simp only: power_strict_increasing_iff) 
  have "(1024::nat) ^ unit_index n < 1024 ^ Suc i" using assms(2) b by linarith
  then have 2: "unit_index n < Suc i" by (simp only: power_strict_increasing_iff)
  from 1 2 show ?thesis by simp
qed


lemma round_div_floor:
  assumes "0 < b"
  shows "int (round_div a b) = \<lfloor>real a / real b + 1 / 2\<rfloor>"
proof -
  have "real a / real b + 1 / 2 = real (2 * a + b) / real (2 * b)"
    using assms by (simp add: field_simps)
  then have "\<lfloor>real a / real b + 1 / 2\<rfloor> = \<lfloor>real (2 * a + b) / real (2 * b)\<rfloor>" by simp
  also have "\<dots> = int ((2 * a + b) div (2 * b))" by (rule floor_divide_of_nat_eq)
  finally show ?thesis by (simp add: round_div_def)
qed



lemma foldl_sizes: "foldl (\<lambda>acc f. acc + bee_size f) a fs = a + sum_list (map bee_size fs)"
  by (induction fs arbitrary: a) simp_all

lemma tenths_floor:
  "int (min (round_div (tot * 100 * 10) (1024 * 1024 * 1024 * 2)) (100 * 10))
     = \<lfloor>min 100 (real tot / (1024 * 1024 * 1024 * 2) * 100) * 10 + 1 / 2\<rfloor>"
proof -
  let ?q = "1024 * 1024 * 1024 * 2 :: nat"
  have r: "int (round_div (tot * 100 * 10) ?q) = \<lfloor>real (tot * 100 * 10) / real ?q + 1 / 2\<rfloor>"
    by (rule round_div_floor) simp
  show ?thesis
  proof (cases "tot < ?q")
    case True
    then have "real tot < real ?q" by (simp only: of_nat_less_iff)
    then have lt: "real tot / (1024 * 1024 * 1024 * 2) * 100 < 100" by simp
    then have "real (tot * 100 * 10) / real ?q + 1 / 2 < 1000 + 1 / 2" by simp
    then have "\<lfloor>real (tot * 100 * 10) / real ?q + 1 / 2\<rfloor> \<le> 1000"
      by (simp add: floor_le_iff)
    then have "round_div (tot * 100 * 10) ?q \<le> 100 * 10" using r by linarith
    then have "int (min (round_div (tot * 100 * 10) ?q) (100 * 10))
                = \<lfloor>real (tot * 100 * 10) / real ?q + 1 / 2\<rfloor>"
      using r by (simp add: min_def)
    moreover have "min 100 (real tot / (1024 * 1024 * 1024 * 2) * 100)
                    = real tot / (1024 * 1024 * 1024 * 2) * 100"
      using lt by simp
    moreover have "real (tot * 100 * 10) / real ?q = real tot / (1024 * 1024 * 1024 * 2) * 100 * 10"
      by simp
    ultimately show ?thesis by (simp only:)
  next
    case False
    then have "real ?q \<le> real tot" by (simp only: of_nat_le_iff not_less)
    then have ge: "100 \<le> real tot / (1024 * 1024 * 1024 * 2) * 100" by simp
    then have "1000 + 1 / 2 \<le> real (tot * 100 * 10) / real ?q + 1 / 2" by simp
    then have "1000 \<le> \<lfloor>real (tot * 100 * 10) / real ?q + 1 / 2\<rfloor>"
      by (simp add: le_floor_iff)
    then have "100 * 10 \<le> round_div (tot * 100 * 10) ?q" using r by linarith
    then have "int (min (round_div (tot * 100 * 10) ?q) (100 * 10)) = 1000"
      by (simp add: min_def)
    moreover have "min 100 (real tot / (1024 * 1024 * 1024 * 2) * 100) = 100"
      using ge by simp
    moreover have "\<lfloor>(100::real) * 10 + 1 / 2\<rfloor> = 1000" by (simp add: floor_eq_iff)
    ultimately show ?thesis by (simp only:)
  qed
qed

lemma formatFileSize_labelled:
  assumes "1024 ^ i \<le> n" and "n < 1024 ^ (i + 1)" and "i < 4"
  shows "formatFileSize n
          = number_text (nat \<lfloor>real n / 1024 ^ i * 100 + 1 / 2\<rfloor>) @ '' ''
            @ [''Bytes'', ''KB'', ''MB'', ''GB''] ! i"
proof -
  have pos: "0 < n" using assms(1) by (cases "n = 0") simp_all
  have u: "unit_index n = i" using assms(1,2) by (intro unit_index_unique) simp_all
  have "int (round_div (100 * n) (1024 ^ i)) = \<lfloor>real (100 * n) / real ((1024::nat) ^ i) + 1 / 2\<rfloor>"
    by (rule round_div_floor) simp
  also have "real (100 * n) / real ((1024::nat) ^ i) = real n / 1024 ^ i * 100" by simp
  finally have "round_div (100 * n) (1024 ^ i) = nat \<lfloor>real n / 1024 ^ i * 100 + 1 / 2\<rfloor>"
    by linarith
  then show ?thesis using pos assms(3) by (simp add: formatFileSize_def Let_def u)
qed

lemma storageUsage_three:
  assumes "bee_size r1 = 1024" and "bee_size r2 = 2048" and "bee_size r3 = 1024 * 1024"
  shows "storageUsage [r1, r2, r3] = (''1 MB'', ''0.0'')"
proof -
  have u: "unit_index 1051648 = 2" by (rule unit_index_unique) simp_all
  show ?thesis
    using assms
    by (simp add: storageUsage_def Let_def formatFileSize_def u round_div_def number_text_def
        string_of_nat.simps digit_def)
qed

lemma formatFileSize_1536: "formatFileSize 1536 = ''1.5 KB''"
proof -
  have u: "unit_index 1536 = 1" by (rule unit_index_unique) simp_all
  show ?thesis
    by (simp add: formatFileSize_def Let_def u round_div_def number_text_def
        string_of_nat.simps digit_def)
qed

text \<open>
  C8, as the code has it. \<open>storageUsage\<close> sums the sizes of the records; its percentage is
  \<open>min(100, total / quota * 100)\<close> for the quota of 2 GiB, rounded to one decimal, halves
  upwards, and written with that decimal; its total is \<open>formatFileSize\<close> of the sum.
  \<open>formatFileSize\<close> answers \<open>0 Bytes\<close> for zero; for a size \<open>n\<close> with
  \<open>1024 ^ i \<le> n < 1024 ^ (i + 1)\<close> and \<open>i < 4\<close> (the largest unit in which the size is at
  least 1) it answers \<open>n / 1024 ^ i\<close> rounded to hundredths, halves upwards, written
  without the final zeros of its decimals (\<open>1\<close>, \<open>1.5\<close>, \<open>1.29\<close>), a space, and the
  \<open>i\<close>-th of the labels Bytes, KB, MB, GB. For three records of 1024, 2048 and
  \<open>1024 * 1024\<close> bytes the percentage is \<open>0.0\<close> and the total is \<open>1 MB\<close>.
\<close>

theorem storageUsage_summary:
  "fst (storageUsage fs) = formatFileSize (sum_list (map bee_size fs))
   \<and> snd (storageUsage fs)
       = (let tenths = nat \<lfloor>min 100 (real (sum_list (map bee_size fs)) / (1024 * 1024 * 1024 * 2) * 100)
                            * 10 + 1 / 2\<rfloor>
          in string_of_nat (tenths div 10) @ ''.'' @ [digit (tenths mod 10)])
   \<and> formatFileSize 0 = ''0 Bytes''
   \<and> (\<forall>n i. 1024 ^ i \<le> n \<and> n < 1024 ^ (i + 1) \<and> i < 4 \<longrightarrow>
         formatFileSize n
          = number_text (nat \<lfloor>real n / 1024 ^ i * 100 + 1 / 2\<rfloor>) @ '' ''
            @ [''Bytes'', ''KB'', ''MB'', ''GB''] ! i)
   \<and> number_text 100 = ''1'' \<and> number_text 150 = ''1.5'' \<and> number_text 129 = ''1.29''
   \<and> (\<forall>r1 r2 r3. bee_size r1 = 1024 \<and> bee_size r2 = 2048 \<and> bee_size r3 = 1024 * 1024 \<longrightarrow>
         storageUsage [r1, r2, r3] = (''1 MB'', ''0.0''))"
proof (intro conjI allI impI)
  let ?total = "sum_list (map bee_size fs)"
  have t: "foldl (\<lambda>acc f. acc + bee_size f) 0 fs = ?total" by (simp add: foldl_sizes)
  show "fst (storageUsage fs) = formatFileSize ?total"
    by (simp add: storageUsage_def Let_def t)
  have "min (round_div (?total * 100 * 10) (1024 * 1024 * 1024 * 2)) (100 * 10)
          = nat \<lfloor>min 100 (real ?total / (1024 * 1024 * 1024 * 2) * 100) * 10 + 1 / 2\<rfloor>"
    using tenths_floor [of ?total] by linarith
  then show "snd (storageUsage fs)
       = (let tenths = nat \<lfloor>min 100 (real ?total / (1024 * 1024 * 1024 * 2) * 100) * 10 + 1 / 2\<rfloor>
          in string_of_nat (tenths div 10) @ ''.'' @ [digit (tenths mod 10)])"
    by (simp only: storageUsage_def Let_def t snd_conv)
  show "formatFileSize 0 = ''0 Bytes''" by (simp add: formatFileSize_def)
  show "number_text 100 = ''1''" by (simp add: number_text_def string_of_nat.simps digit_def)
  show "number_text 150 = ''1.5''" by (simp add: number_text_def string_of_nat.simps digit_def)
  show "number_text 129 = ''1.29''" by (simp add: number_text_def string_of_nat.simps digit_def)
next
  fix n i :: nat
  assume "1024 ^ i \<le> n \<and> n < 1024 ^ (i + 1) \<and> i < 4"
  then show "formatFileSize n
          = number_text (nat \<lfloor>real n / 1024 ^ i * 100 + 1 / 2\<rfloor>) @ '' ''
            @ [''Bytes'', ''KB'', ''MB'', ''GB''] ! i"
    using formatFileSize_labelled by blast
next
  fix r1 r2 r3 :: BeeFile
  assume "bee_size r1 = 1024 \<and> bee_size r2 = 2048 \<and> bee_size r3 = 1024 * 1024"
  then show "storageUsage [r1, r2, r3] = (''1 MB'', ''0.0'')"
    using storageUsage_three by blast
qed

text \<open>The witness: 1536 bytes are \<open>1.5 KB\<close>, and the three records of the specification's example.\<close>

theorem storageUsage_summary_witness:
  "(1024::nat) ^ 1 \<le> 1536 \<and> (1536::nat) < 1024 ^ (1 + 1) \<and> (1::nat) < 4
   \<and> formatFileSize 1536
       = number_text (nat \<lfloor>real 1536 / 1024 ^ 1 * 100 + 1 / 2\<rfloor>) @ '' ''
         @ [''Bytes'', ''KB'', ''MB'', ''GB''] ! 1
   \<and> formatFileSize 1536 = ''1.5 KB''
   \<and> bee_size (demo_record ''a'' 1024) = 1024
   \<and> bee_size (demo_record ''b'' 2048) = 2048
   \<and> bee_size (demo_record ''c'' (1024 * 1024)) = 1024 * 1024
   \<and> storageUsage [demo_record ''a'' 1024, demo_record ''b'' 2048, demo_record ''c'' (1024 * 1024)]
       = (''1 MB'', ''0.0'')"
proof -
  have h1: "(1024::nat) ^ 1 \<le> 1536 \<and> (1536::nat) < 1024 ^ (1 + 1) \<and> (1::nat) < 4" by simp
  have h2: "bee_size (demo_record ''a'' 1024) = 1024
     \<and> bee_size (demo_record ''b'' 2048) = 2048
     \<and> bee_size (demo_record ''c'' (1024 * 1024)) = 1024 * 1024"
    by (simp add: demo_record_def)
  note t = storageUsage_summary [of "[]"]
  from t have a: "\<forall>n i. 1024 ^ i \<le> n \<and> n < 1024 ^ (i + 1) \<and> i < 4 \<longrightarrow>
         formatFileSize n
          = number_text (nat \<lfloor>real n / 1024 ^ i * 100 + 1 / 2\<rfloor>) @ '' ''
            @ [''Bytes'', ''KB'', ''MB'', ''GB''] ! i"
    by blast
  from t have b: "\<forall>r1 r2 r3. bee_size r1 = 1024 \<and> bee_size r2 = 2048 \<and> bee_size r3 = 1024 * 1024 \<longrightarrow>
         storageUsage [r1, r2, r3] = (''1 MB'', ''0.0'')"
    by blast
  from a h1 have 1: "formatFileSize 1536
       = number_text (nat \<lfloor>real 1536 / 1024 ^ 1 * 100 + 1 / 2\<rfloor>) @ '' ''
         @ [''Bytes'', ''KB'', ''MB'', ''GB''] ! 1"
    by blast
  from b h2 have 2: "storageUsage [demo_record ''a'' 1024, demo_record ''b'' 2048,
        demo_record ''c'' (1024 * 1024)] = (''1 MB'', ''0.0'')"
    by blast
  from h1 h2 1 2 formatFileSize_1536 show ?thesis by blast
qed

text \<open>
  C8, as the specification states it, fails on its own example: the total of the three records is
  written \<open>1 MB\<close>, not with two decimals as \<open>1.00 MB\<close>; likewise 1536 bytes are
  \<open>1.5 KB\<close>. \<^verbatim>\<open>parseFloat\<close> drops the zeros \<^verbatim>\<open>toFixed(2)\<close> wrote.
\<close>

theorem formatFileSize_decimals_counterexample:
  "fst (storageUsage [demo_record ''a'' 1024, demo_record ''b'' 2048,
          demo_record ''c'' (1024 * 1024)]) = ''1 MB''
   \<and> fst (storageUsage [demo_record ''a'' 1024, demo_record ''b'' 2048,
          demo_record ''c'' (1024 * 1024)]) \<noteq> ''1.00 MB''
   \<and> formatFileSize 1536 = ''1.5 KB''
   \<and> formatFileSize 1536 \<noteq> ''1.50 KB''"
proof -
  have "storageUsage [demo_record ''a'' 1024, demo_record ''b'' 2048,
          demo_record ''c'' (1024 * 1024)] = (''1 MB'', ''0.0'')"
    by (rule storageUsage_three) (simp_all add: demo_record_def)
  then show ?thesis by (simp add: formatFileSize_1536)
qed




end
